theory Spec2Isabelle
  imports Main "HOL-Library.Word" "HOL-Library.Sublist"
begin

section \<open>The C library as the program uses it\<close>

text \<open>
  The program \<^verbatim>\<open>ipk-mtrip.cc\<close> is a single translation unit with five functions:
  \<^verbatim>\<open>main\<close>, \<^verbatim>\<open>Reflector::init\<close>, \<^verbatim>\<open>Meter::init\<close>, \<^verbatim>\<open>interrupt_handler\<close> and
  \<^verbatim>\<open>argument_parser\<close>. A C \<^verbatim>\<open>char\<close> is a \<^typ>\<open>char\<close>, a C string and a datagram payload
  are a \<^typ>\<open>string\<close>, \<^verbatim>\<open>unsigned short\<close>, \<^verbatim>\<open>unsigned int\<close>, \<^verbatim>\<open>int\<close> and \<^verbatim>\<open>size_t\<close>
  are words of 16, 32, 32 and 64 bits (an LP64 platform, with a signed \<^verbatim>\<open>char\<close>).
\<close>

definition NUL :: char where
  "NUL = CHR 0x00"

definition endl :: string where
  "endl = [CHR 0x0A]"

definition EXIT_SUCCESS :: nat where
  "EXIT_SUCCESS = 0"

definition EXIT_FAILURE :: nat where
  "EXIT_FAILURE = 1"

definition SIGINT :: int where
  "SIGINT = 2"

definition SIGSEGV :: int where
  "SIGSEGV = 11"

definition isspace :: "char \<Rightarrow> bool" where
  "isspace c = (c = CHR '' '' \<or> (9::nat) \<le> of_char c \<and> (of_char c :: nat) \<le> 13)"

definition isdigit :: "char \<Rightarrow> bool" where
  "isdigit c = ((48::nat) \<le> of_char c \<and> (of_char c :: nat) \<le> 57)"

definition isprint :: "char \<Rightarrow> bool" where
  "isprint c = ((32::nat) \<le> of_char c \<and> (of_char c :: nat) \<le> 126)"

text \<open>The value of the longest prefix of decimal digits, most significant digit first.\<close>

fun digits_val :: "nat \<Rightarrow> string \<Rightarrow> nat" where
  "digits_val acc [] = acc"
| "digits_val acc (c # cs) =
     (if isdigit c then digits_val (acc * 10 + (of_char c - 48)) cs else acc)"

text \<open>
  \<^verbatim>\<open>strtol(s, NULL, 10)\<close>: white space is skipped, one sign is read, then the digits; a
  value out of the range of \<^verbatim>\<open>long\<close> is clamped to it.
\<close>

definition strtol :: "string \<Rightarrow> int" where
  "strtol s =
     (let s1 = dropWhile isspace s in
      case s1 of
        [] \<Rightarrow> 0
      | c # cs \<Rightarrow>
          if c = CHR ''-'' then max (- int (digits_val 0 cs)) (- (2 ^ 63))
          else if c = CHR ''+'' then min (int (digits_val 0 cs)) (2 ^ 63 - 1)
          else min (int (digits_val 0 s1)) (2 ^ 63 - 1))"

text \<open>
  \<^verbatim>\<open>atoi(s)\<close> is \<^verbatim>\<open>(int) strtol(s, NULL, 10)\<close>: the low 32 bits of the \<^verbatim>\<open>long\<close>. (Beyond the
  range of \<^verbatim>\<open>int\<close> the C standard leaves the result open; this is what glibc computes.)
\<close>

definition atoi :: "string \<Rightarrow> 32 word" where
  "atoi s = word_of_int (strtol s)"

text \<open>
  The program stores \<^verbatim>\<open>atof(optarg)\<close> in a \<^verbatim>\<open>float\<close> and never computes with it. The
  value is kept as the text it is read from: \<open>atof s\<close> stands for the \<^verbatim>\<open>float\<close> that C's
  \<^verbatim>\<open>atof\<close> gives for \<open>s\<close>.
\<close>

datatype c_float = atof string

subsection \<open>getopt\<close>

text \<open>
  The global variables of \<^verbatim>\<open>getopt\<close>. \<open>nextchar\<close> is the position inside
  \<^verbatim>\<open>argv[optind]\<close> of the next option character, 0 when the scan starts a new element.
  The program sets \<^verbatim>\<open>opterr = 0\<close>, so \<^verbatim>\<open>getopt\<close> itself prints nothing.
\<close>

record getopt_state =
  optind :: nat
  nextchar :: nat
  optarg :: string
  optopt :: char

text \<open>
  \<open>opt_lookup optstring c\<close>: \<open>None\<close> when \<open>c\<close> is no option character of \<open>optstring\<close>,
  \<open>Some True\<close> when it is one that takes an argument (it is followed by a colon).
\<close>

fun opt_lookup :: "string \<Rightarrow> char \<Rightarrow> bool option" where
  "opt_lookup [] c = None"
| "opt_lookup (x # xs) c =
     (if x = c \<and> c \<noteq> CHR '':'' then Some (case xs of [] \<Rightarrow> False | y # _ \<Rightarrow> y = CHR '':'')
      else opt_lookup xs c)"

definition is_option :: "string \<Rightarrow> bool" where
  "is_option a = (case a of [] \<Rightarrow> False | c # cs \<Rightarrow> c = CHR ''-'' \<and> cs \<noteq> [])"

text \<open>
  One option character \<open>a ! k\<close> of the element \<open>a = argv ! optind\<close>. The result is the
  character returned (\<open>None\<close> is \<open>-1\<close>) and the new state. An option that takes an
  argument takes the rest of its element, or else the whole next element, whatever it
  looks like; when there is none, \<^verbatim>\<open>getopt\<close> returns \<^verbatim>\<open>'?'\<close> with \<open>optopt\<close> set.
\<close>

definition getopt_char ::
  "string \<Rightarrow> string list \<Rightarrow> getopt_state \<Rightarrow> string \<Rightarrow> nat \<Rightarrow> char option \<times> getopt_state" where
  "getopt_char optstring argv st a k =
     (let c = a ! k;
          rest = drop (Suc k) a;
          i = optind st;
          st' = (if rest = [] then st\<lparr>optind := Suc i, nextchar := 0\<rparr>
                 else st\<lparr>nextchar := Suc k\<rparr>)
      in case opt_lookup optstring c of
           None \<Rightarrow> (Some CHR ''?'', st'\<lparr>optopt := c\<rparr>)
         | Some False \<Rightarrow> (Some c, st')
         | Some True \<Rightarrow>
             if rest \<noteq> [] then
               (Some c, st\<lparr>optind := Suc i, nextchar := 0, optarg := rest\<rparr>)
             else if Suc i < length argv then
               (Some c, st\<lparr>optind := Suc (Suc i), nextchar := 0, optarg := argv ! Suc i\<rparr>)
             else
               (Some CHR ''?'', st\<lparr>optind := Suc i, nextchar := 0, optopt := c\<rparr>))"

text \<open>
  \<^verbatim>\<open>getopt(argc, argv, optstring)\<close>. With \<open>permute\<close> (glibc's default) an element that is
  no option is passed over and the scan goes on behind it; without it (POSIX, BSD) the
  scan ends there. The element \<^verbatim>\<open>--\<close> ends the scan in both. The program never reads
  \<^verbatim>\<open>argv\<close> again after the scan, so the reordering glibc does is not modelled.
\<close>

definition getopt ::
  "bool \<Rightarrow> string \<Rightarrow> string list \<Rightarrow> getopt_state \<Rightarrow> char option \<times> getopt_state" where
  "getopt permute optstring argv st =
     (if length argv \<le> optind st then (None, st)
      else if 0 < nextchar st \<and> nextchar st < length (argv ! optind st) then
        getopt_char optstring argv st (argv ! optind st) (nextchar st)
      else
        let i = (if permute
                 then optind st + length (takeWhile (\<lambda>a. \<not> is_option a) (drop (optind st) argv))
                 else optind st);
            st1 = st\<lparr>optind := i, nextchar := 0\<rparr>
        in if length argv \<le> i then (None, st1)
           else if argv ! i = ''--'' then (None, st1\<lparr>optind := Suc i\<rparr>)
           else if is_option (argv ! i) then getopt_char optstring argv st1 (argv ! i) 1
           else (None, st1))"

section \<open>Configurations\<close>

text \<open>
  The two classes derived from \<^verbatim>\<open>MTripConfiguration\<close> are declared in \<^verbatim>\<open>ipk-mtrip.h\<close>;
  their members are taken with the types of the constructor arguments that
  \<^verbatim>\<open>argument_parser\<close> passes.
\<close>

datatype MTripConfiguration =
  Meter (m_host_name: string) (m_port: "16 word") (m_probe_size: "64 word")
        (m_measurment_time: c_float)
| Reflector (r_port: "32 word")

text \<open>
  What a function of the program does to the process: it returns a value, or it calls
  \<^verbatim>\<open>exit\<close> with a status.
\<close>

datatype 'a result = Return 'a | Exit nat

section \<open>argument\_parser\<close>

text \<open>
  The local variables of the meter branch. The three numeric ones are uninitialised
  in C; they are read only when all four flags are set, and then each has been assigned.
\<close>

record meter_vars =
  h_flag :: bool
  p_flag :: bool
  s_flag :: bool
  t_flag :: bool
  host_name :: string
  port :: "16 word"
  probe_size :: "64 word"
  measurment_time :: c_float

definition meter_vars0 :: meter_vars where
  "meter_vars0 = \<lparr>h_flag = False, p_flag = False, s_flag = False, t_flag = False,
     host_name = [], port = 0, probe_size = 0, measurment_time = atof []\<rparr>"

text \<open>The messages of the \<^verbatim>\<open>'?'\<close> case of the meter branch.\<close>

definition meter_unknown :: "char \<Rightarrow> string" where
  "meter_unknown c =
     (if c = CHR ''h'' \<or> c = CHR ''p'' \<or> c = CHR ''s'' \<or> c = CHR ''t''
      then ''Option -'' @ [c] @ '' requires an argument.'' @ endl
      else if isprint c then ''Uknown option '' @ [CHR 0x27] @ ''-'' @ [c] @ [CHR 0x27] @ endl
      else ''Unknown option character. '' @ endl)"

text \<open>
  The \<^verbatim>\<open>while ((c = getopt(argc, argv, "h:p:s:t:")) != -1)\<close> loop. The result is what
  was written to \<^verbatim>\<open>cerr\<close> and either the variables after the loop or the status of
  \<^verbatim>\<open>exit(1)\<close>.
\<close>

function meter_getopt_loop ::
  "bool \<Rightarrow> string list \<Rightarrow> meter_vars \<Rightarrow> getopt_state \<Rightarrow> string list \<times> meter_vars result" where
  "meter_getopt_loop permute argv v st =
     (case getopt permute ''h:p:s:t:'' argv st of
        (None, st') \<Rightarrow> ([], Return v)
      | (Some c, st') \<Rightarrow>
          if c = CHR ''h'' then
            meter_getopt_loop permute argv (v\<lparr>h_flag := True, host_name := optarg st'\<rparr>) st'
          else if c = CHR ''p'' then
            meter_getopt_loop permute argv
              (v\<lparr>p_flag := True, port := ucast (atoi (optarg st'))\<rparr>) st'
          else if c = CHR ''s'' then
            meter_getopt_loop permute argv
              (v\<lparr>s_flag := True, probe_size := scast (atoi (optarg st'))\<rparr>) st'
          else if c = CHR ''t'' then
            meter_getopt_loop permute argv
              (v\<lparr>t_flag := True, measurment_time := atof (optarg st')\<rparr>) st'
          else if c = CHR ''?'' then ([meter_unknown (optopt st')], Exit 1)
          else ([''uknown getopt() error'' @ endl], Exit 1))"
  by pat_completeness auto

lemma getopt_char_advance:
  assumes "getopt_char os argv st a k = (Some c, st')"
    and "opt_lookup os c = Some True" and "c \<noteq> CHR ''?''"
    and "optind st < length argv"
  shows "optind st < optind st' \<and> optind st' \<le> length argv"
  using assms
  by (auto simp: getopt_char_def Let_def split: option.splits bool.splits if_splits)

lemma getopt_advance:
  assumes "getopt permute os argv st = (Some c, st')"
    and "opt_lookup os c = Some True" and "c \<noteq> CHR ''?''"
  shows "optind st < optind st' \<and> optind st' \<le> length argv"
proof (cases "length argv \<le> optind st")
  case True
  then show ?thesis using assms by (simp add: getopt_def)
next
  case False
  show ?thesis
  proof (cases "0 < nextchar st \<and> nextchar st < length (argv ! optind st)")
    case True
    then show ?thesis
      using assms False
        getopt_char_advance [of os argv st "argv ! optind st" "nextchar st" c st']
      by (simp add: getopt_def)
  next
    case inner: False
    define i where "i = (if permute
        then optind st + length (takeWhile (\<lambda>a. \<not> is_option a) (drop (optind st) argv))
        else optind st)"
    define st1 where "st1 = st\<lparr>optind := i, nextchar := 0\<rparr>"
    have le: "optind st \<le> i" by (simp add: i_def)
    have unfolded: "getopt permute os argv st =
        (if length argv \<le> i then (None, st1)
         else if argv ! i = ''--'' then (None, st1\<lparr>optind := Suc i\<rparr>)
         else if is_option (argv ! i) then getopt_char os argv st1 (argv ! i) 1
         else (None, st1))"
      using False inner unfolding getopt_def i_def st1_def Let_def by auto
    from assms(1) unfolded have inside: "\<not> length argv \<le> i"
      and scan: "getopt_char os argv st1 (argv ! i) 1 = (Some c, st')"
      by (auto split: if_splits)
    have "optind st1 = i" by (simp add: st1_def)
    with getopt_char_advance [OF scan assms(2,3)] inside le show ?thesis by auto
  qed
qed

termination meter_getopt_loop
  apply (relation "measure (\<lambda>(permute, argv, v, st). length argv - optind st)")
      apply simp
  subgoal for permute argv v st x1 x2 xa
    using getopt_advance [of permute "''h:p:s:t:''" argv st "CHR ''h''" x2] by auto
  subgoal for permute argv v st x1 x2 xa
    using getopt_advance [of permute "''h:p:s:t:''" argv st "CHR ''p''" x2] by auto
  subgoal for permute argv v st x1 x2 xa
    using getopt_advance [of permute "''h:p:s:t:''" argv st "CHR ''s''" x2] by auto
  subgoal for permute argv v st x1 x2 xa
    using getopt_advance [of permute "''h:p:s:t:''" argv st "CHR ''t''" x2] by auto
  done

text \<open>The reflect branch: one flag, and the port as an \<^verbatim>\<open>unsigned int\<close>.\<close>

definition reflect_unknown :: "char \<Rightarrow> string" where
  "reflect_unknown c =
     (if c = CHR ''p'' then ''Option -p requires an argument.'' @ endl
      else if isprint c then ''Uknown option '' @ [CHR 0x27] @ ''-'' @ [c] @ [CHR 0x27] @ endl
      else ''Unknown option character. '' @ endl)"

function reflect_getopt_loop ::
  "bool \<Rightarrow> string list \<Rightarrow> bool \<times> 32 word \<Rightarrow> getopt_state
     \<Rightarrow> string list \<times> (bool \<times> 32 word) result" where
  "reflect_getopt_loop permute argv v st =
     (case getopt permute ''p:'' argv st of
        (None, st') \<Rightarrow> ([], Return v)
      | (Some c, st') \<Rightarrow>
          if c = CHR ''p'' then reflect_getopt_loop permute argv (True, atoi (optarg st')) st'
          else if c = CHR ''?'' then ([reflect_unknown (optopt st')], Exit 1)
          else ([''uknown getopt() error'' @ endl], Exit 1))"
  by pat_completeness auto

termination reflect_getopt_loop
  apply (relation "measure (\<lambda>(permute, argv, v, st). length argv - optind st)")
   apply simp
  subgoal for permute argv v st x1 x2 xa
    using getopt_advance [of permute "''p:''" argv st "CHR ''p''" x2] by auto
  done

declare meter_getopt_loop.simps [simp del] reflect_getopt_loop.simps [simp del]

text \<open>
  The state of \<^verbatim>\<open>getopt\<close> when the program starts: \<^verbatim>\<open>optind\<close> is 1.
\<close>

definition getopt_state0 :: getopt_state where
  "getopt_state0 = \<lparr>optind = 1, nextchar = 0, optarg = [], optopt = CHR ''?''\<rparr>"

text \<open>
  \<^verbatim>\<open>argument_parser(argc, argv)\<close>, with \<^verbatim>\<open>argc = length argv\<close>. The result is what was
  written to \<^verbatim>\<open>cerr\<close> and either the returned pointer (\<open>None\<close> is \<^verbatim>\<open>nullptr\<close>) or the
  status of an \<^verbatim>\<open>exit\<close> inside the parser.
\<close>

definition argument_parser ::
  "bool \<Rightarrow> string list \<Rightarrow> string list \<times> MTripConfiguration option result" where
  "argument_parser permute argv =
     (if length argv < 4 then ([''Wrong number of arguments.'' @ endl], Return None)
      else if argv ! optind getopt_state0 = ''meter'' then
        (case meter_getopt_loop permute argv meter_vars0
                (getopt_state0\<lparr>optind := Suc (optind getopt_state0)\<rparr>) of
           (e, Exit n) \<Rightarrow> (e, Exit n)
         | (e, Return v) \<Rightarrow>
             if h_flag v \<and> p_flag v \<and> s_flag v \<and> t_flag v then
               (e, Return (Some (Meter (host_name v) (port v) (probe_size v)
                                       (measurment_time v))))
             else (e @ [''Not all argument options passed in.'' @ endl], Return None))
      else if argv ! optind getopt_state0 = ''reflect'' then
        (case reflect_getopt_loop permute argv (False, 0)
                (getopt_state0\<lparr>optind := Suc (optind getopt_state0)\<rparr>) of
           (e, Exit n) \<Rightarrow> (e, Exit n)
         | (e, Return (p_given, p)) \<Rightarrow>
             if p_given then (e, Return (Some (Reflector p)))
             else (e @ [''Required option not passed in.'' @ endl], Return None))
      else
        ([''Undefined mode inside an argument passed to the application.'' @ endl],
         Return None))"

section \<open>The process and its surroundings\<close>

text \<open>
  What the surroundings give to a running loop: the whole content of standard input
  (its end is end-of-file), and, in the order they happen while the process waits in
  \<^verbatim>\<open>recv_message\<close>, the datagrams that arrive and the operator's interrupt. The other
  three fields are the memory of the process: \<open>stack\<close> is what the bytes of a buffer
  hold before anything is stored in them, \<open>stack_limit\<close> is the number of bytes the
  stack has left for the buffer of \<^verbatim>\<open>Meter::init\<close>, and \<open>beyond\<close> is what lies behind
  that buffer, from its end to the end of the memory the process can read.
  The two macros are defined in \<^verbatim>\<open>ipk-mtrip.h\<close>, which is not part of the source at
  hand, and \<open>permute\<close> is the way of the platform's \<^verbatim>\<open>getopt\<close>.
\<close>

datatype event = Datagram string | Interrupt

record world =
  stdin :: string
  events :: "event list"
  stack :: "nat \<Rightarrow> char"
  stack_limit :: nat
  beyond :: string

record platform =
  CL_GREEN :: string
  RESET :: string
  permute :: bool

text \<open>
  A process is still in its loop (\<open>Running\<close>: the events at hand are used up and it
  waits for the next), or a function returned to \<^verbatim>\<open>main\<close>, or the process has ended
  with a status, or it was killed by a signal it does not handle.
\<close>

datatype status = Running | Returned | Exited nat | Killed int

record outcome =
  out :: "string list"
  err :: "string list"
  sent :: "string list"
  status :: status

subsection \<open>SocketEntity\<close>

text \<open>
  Modelled from the spec: \<^verbatim>\<open>SocketEntity::recv_message(buffer, len)\<close> of
  \<^verbatim>\<open>ipk-socket.h\<close>, which is not part of the source at hand. The spec's Channel gives
  \<^verbatim>\<open>receive\<close> as a blocking call that yields the bytes of one datagram; with a buffer
  and its size, the bytes are stored at the start of the buffer, at most \<open>len\<close> of
  them, and the rest of the buffer is left as it was.
\<close>

definition recv_message :: "string \<Rightarrow> nat \<Rightarrow> string \<Rightarrow> string" where
  "recv_message buffer len d = take len d @ drop (length (take len d)) buffer"

text \<open>
  Modelled from the spec: \<^verbatim>\<open>SocketEntity::send_message(buffer, len)\<close> of
  \<^verbatim>\<open>ipk-socket.h\<close>, which is not part of the source at hand. The spec's Channel
  "transmits exactly \<^verbatim>\<open>bytes.length\<close> octets to the bound/connected peer": the datagram
  sent is the first \<open>len\<close> bytes of the buffer.
\<close>

definition send_message :: "string \<Rightarrow> nat \<Rightarrow> string" where
  "send_message buffer len = take len buffer"

subsection \<open>Standard input and output\<close>

definition bzero :: "string \<Rightarrow> nat \<Rightarrow> string" where
  "bzero buffer n = replicate (min n (length buffer)) NUL @ drop n buffer"

text \<open>
  The characters one \<^verbatim>\<open>fgets\<close> takes from the input: at most \<open>k\<close>, and none after a
  newline.
\<close>

fun fgets_chars :: "nat \<Rightarrow> string \<Rightarrow> string" where
  "fgets_chars 0 inp = []"
| "fgets_chars (Suc k) [] = []"
| "fgets_chars (Suc k) (c # cs) = (if c = CHR 0x0A then [c] else c # fgets_chars k cs)"

text \<open>
  \<^verbatim>\<open>fgets(buffer, n, stdin)\<close>: the buffer afterwards and the input left. With \<open>n \<le> 0\<close>
  nothing is done; at end-of-file with no character read the buffer is left as it was;
  otherwise the characters read are stored with a terminating NUL.
\<close>

definition fgets :: "string \<Rightarrow> int \<Rightarrow> string \<Rightarrow> string \<times> string" where
  "fgets buffer n inp =
     (if n \<le> 0 then (buffer, inp)
      else
        let got = fgets_chars (nat n - 1) inp
        in if got = [] \<and> 1 < n then (buffer, inp)
           else (got @ [NUL] @ drop (Suc (length got)) buffer, drop (length got) inp))"

text \<open>
  \<^verbatim>\<open>cout << buffer\<close> for a \<^verbatim>\<open>char\<close> array: the characters before the first NUL. The
  read does not know where the array ends: when the array holds no NUL it goes on
  into the memory \<open>behind\<close> it, and when there is no NUL up to the end of the readable
  memory either, nothing is printed and the read faults (\<open>None\<close>).
\<close>

definition c_str :: "string \<Rightarrow> string \<Rightarrow> string option" where
  "c_str buffer behind =
     (if NUL \<in> set (buffer @ behind) then Some (takeWhile (\<lambda>c. c \<noteq> NUL) (buffer @ behind))
      else None)"

function digits_of :: "nat \<Rightarrow> string" where
  "digits_of n =
     (if n < 10 then [char_of (48 + n)] else digits_of (n div 10) @ [char_of (48 + n mod 10)])"
  by pat_completeness auto
termination
  by (relation "measure id") auto

definition show_int :: "int \<Rightarrow> string" where
  "show_int i = (if i < 0 then CHR ''-'' # digits_of (nat (- i)) else digits_of (nat i))"

section \<open>interrupt\_handler\<close>

text \<open>What the handler prints, and the status it ends the process with.\<close>

definition interrupt_handler :: "int \<Rightarrow> outcome" where
  "interrupt_handler signum =
     \<lparr>out = [''Caught signal '' @ show_int signum @ ''. Ending the program.'' @ endl],
      err = [], sent = [], status = Exited EXIT_SUCCESS\<rparr>"

text \<open>A process that a signal kills where it stands prints and sends nothing more.\<close>

definition killed :: "int \<Rightarrow> outcome" where
  "killed signum = \<lparr>out = [], err = [], sent = [], status = Killed signum\<rparr>"

text \<open>\<open>before xs ys o\<close> is the outcome \<open>o\<close> after \<open>xs\<close> was printed and \<open>ys\<close> was sent.\<close>

definition before :: "string list \<Rightarrow> string list \<Rightarrow> outcome \<Rightarrow> outcome" where
  "before xs ys oc = oc\<lparr>out := xs @ out oc, sent := ys @ sent oc\<rparr>"

section \<open>Reflector::init\<close>

text \<open>
  The \<^verbatim>\<open>while (true)\<close> loop of the reflector, over the events that happen while it
  waits in \<^verbatim>\<open>recv_message\<close>. \<^verbatim>\<open>sizeof(buffer)\<close> is 512 in both calls. The loop has no
  exit: when the events are used up it is still waiting, and the only way out is the
  handler of the interrupt, which \<^verbatim>\<open>main\<close> has installed. \<^verbatim>\<open>setup_server\<close> and
  \<^verbatim>\<open>setup_connection\<close> belong to \<^verbatim>\<open>ipk-socket.h\<close>; both loops are those of a process in
  which the call has returned.
\<close>

fun Reflector_loop :: "string \<Rightarrow> event list \<Rightarrow> outcome" where
  "Reflector_loop buffer [] = \<lparr>out = [], err = [], sent = [], status = Running\<rparr>"
| "Reflector_loop buffer (Interrupt # es) = interrupt_handler SIGINT"
| "Reflector_loop buffer (Datagram d # es) =
     (let buffer1 = recv_message buffer 512 d
      in before [] [send_message buffer1 512] (Reflector_loop buffer1 es))"

definition Reflector_init :: "platform \<Rightarrow> world \<Rightarrow> outcome" where
  "Reflector_init pf w =
     before [''[REFLECTOR]: '' @ CL_GREEN pf @ ''started'' @ RESET pf @ endl] []
       (Reflector_loop (map (stack w) [0..<512]) (events w))"

section \<open>Meter::init\<close>

text \<open>
  The first half of the loop body, up to the send: the buffer of \<open>m_probe_size\<close> bytes
  is zeroed, one \<^verbatim>\<open>fgets\<close> reads into it (its \<^verbatim>\<open>int\<close> argument is the \<^verbatim>\<open>size_t\<close>
  converted), and the whole buffer is sent. The result is the datagram sent and the
  input left.
\<close>

definition Meter_send :: "MTripConfiguration \<Rightarrow> string \<Rightarrow> string \<Rightarrow> string \<times> string" where
  "Meter_send this buffer inp =
     (let buffer1 = bzero buffer (unat (m_probe_size this));
          (buffer2, inp') = fgets buffer1 (sint (ucast (m_probe_size this) :: 32 word)) inp
      in (send_message buffer2 (unat (m_probe_size this)), inp'))"

text \<open>
  The \<^verbatim>\<open>while (true)\<close> loop of the meter. Each round prints the prompt, sends, zeroes
  the buffer and waits in \<^verbatim>\<open>recv_message\<close>; the datagram that arrives is printed as a
  C string, which can fault. \<^verbatim>\<open>m_measurment_time\<close> is not read before or in the loop.
  The loop has no exit: when the events are used up it is still waiting, and the only
  way out is the handler of the interrupt.
\<close>

fun Meter_loop ::
  "MTripConfiguration \<Rightarrow> string \<Rightarrow> string \<Rightarrow> string \<Rightarrow> event list \<Rightarrow> outcome" where
  "Meter_loop this behind buffer inp [] =
     before [''Please enter msg: ''] [fst (Meter_send this buffer inp)]
       \<lparr>out = [], err = [], sent = [], status = Running\<rparr>"
| "Meter_loop this behind buffer inp (Interrupt # es) =
     before [''Please enter msg: ''] [fst (Meter_send this buffer inp)]
       (interrupt_handler SIGINT)"
| "Meter_loop this behind buffer inp (Datagram d # es) =
     (let (probe, inp') = Meter_send this buffer inp;
          buffer3 = recv_message (bzero buffer (unat (m_probe_size this)))
                      (unat (m_probe_size this)) d
      in before [''Please enter msg: ''] [probe]
           (case c_str buffer3 behind of
              None \<Rightarrow> killed SIGSEGV
            | Some text \<Rightarrow>
                before [''Feedback: '' @ text @ endl] []
                  (Meter_loop this behind buffer3 inp' es)))"

text \<open>
  \<^verbatim>\<open>char buffer[m_probe_size]\<close> lies on the stack, and the first \<^verbatim>\<open>bzero\<close> writes all of
  it: when the stack has not that many bytes left, the write faults and the process
  is killed, after the start line and before the first prompt.
\<close>

definition Meter_init :: "platform \<Rightarrow> MTripConfiguration \<Rightarrow> world \<Rightarrow> outcome" where
  "Meter_init pf this w =
     before [''[METER]: '' @ CL_GREEN pf @ ''started'' @ RESET pf @ endl] []
       (if stack_limit w < unat (m_probe_size this) then killed SIGSEGV
        else Meter_loop this (beyond w) (map (stack w) [0..<unat (m_probe_size this)])
               (stdin w) (events w))"

section \<open>main\<close>

text \<open>The virtual call \<^verbatim>\<open>mtrip->init()\<close>.\<close>

definition init :: "platform \<Rightarrow> MTripConfiguration \<Rightarrow> world \<Rightarrow> outcome" where
  "init pf mtrip w =
     (case mtrip of
        Meter h p s t \<Rightarrow> Meter_init pf mtrip w
      | Reflector p \<Rightarrow> Reflector_init pf w)"

definition main :: "platform \<Rightarrow> string list \<Rightarrow> world \<Rightarrow> outcome" where
  "main pf argv w =
     (case argument_parser (permute pf) argv of
        (e, Exit n) \<Rightarrow> \<lparr>out = [], err = e, sent = [], status = Exited n\<rparr>
      | (e, Return None) \<Rightarrow> \<lparr>out = [], err = e, sent = [], status = Exited EXIT_FAILURE\<rparr>
      | (e, Return (Some mtrip)) \<Rightarrow>
          (let oc = init pf mtrip w
           in oc\<lparr>err := e @ err oc,
                 status := (if status oc = Returned then Exited EXIT_SUCCESS else status oc)\<rparr>))"

section \<open>Notions the properties are stated with\<close>

text \<open>The datagrams that arrive before the operator's interrupt, in their order.\<close>

fun datagrams :: "event list \<Rightarrow> string list" where
  "datagrams [] = []"
| "datagrams (Interrupt # es) = []"
| "datagrams (Datagram d # es) = d # datagrams es"

text \<open>
  What \<open>r\<close> calls of \<^verbatim>\<open>fgets\<close> in a row read from the input \<open>inp\<close>, each taking at most
  \<open>k\<close> characters.
\<close>

fun stdin_reads :: "nat \<Rightarrow> string \<Rightarrow> nat \<Rightarrow> string list" where
  "stdin_reads k inp 0 = []"
| "stdin_reads k inp (Suc r) =
     fgets_chars k inp # stdin_reads k (drop (length (fgets_chars k inp)) inp) r"

definition zero_filled :: "nat \<Rightarrow> string \<Rightarrow> string" where
  "zero_filled n t = t @ replicate (n - length t) NUL"

text \<open>
  What the meter's zeroed buffer of \<open>n\<close> bytes holds after the answer \<open>d\<close> was stored
  in it, and whether the print of it finds a NUL in the buffer or behind it.
\<close>

definition received :: "nat \<Rightarrow> string \<Rightarrow> string" where
  "received n d = take n d @ replicate (n - length d) NUL"

definition print_ends :: "nat \<Rightarrow> string \<Rightarrow> string \<Rightarrow> bool" where
  "print_ends n behind d = (NUL \<in> set (received n d @ behind))"

text \<open>
  The answers the meter gets to print: those that arrive before the interrupt and
  before the first answer whose print finds no NUL.
\<close>

fun answered :: "nat \<Rightarrow> string \<Rightarrow> event list \<Rightarrow> string list" where
  "answered n behind [] = []"
| "answered n behind (Interrupt # es) = []"
| "answered n behind (Datagram d # es) =
     (if print_ends n behind d then d # answered n behind es else [])"


text \<open>The number of rounds of the meter that get as far as the send.\<close>

definition rounds :: "MTripConfiguration \<Rightarrow> world \<Rightarrow> nat" where
  "rounds this w =
     (if stack_limit w < unat (m_probe_size this) then 0
      else Suc (length (answered (unat (m_probe_size this)) (beyond w) (events w))))"

text \<open>
  The standard output of a meter run that nothing kills, in the words of the
  property: the start line; for every answer the prompt and a line with the answer
  as \<^verbatim>\<open>cout\<close> reads it; the prompt of the round the run is in; and the line of the
  handler when the operator has interrupted.
\<close>

definition feedback_line :: "nat \<Rightarrow> string \<Rightarrow> string \<Rightarrow> string" where
  "feedback_line n behind d =
     ''Feedback: '' @ takeWhile (\<lambda>c. c \<noteq> NUL) (received n d @ behind) @ endl"


text \<open>The most characters one \<^verbatim>\<open>fgets\<close> of the meter takes.\<close>

definition fgets_limit :: "MTripConfiguration \<Rightarrow> nat" where
  "fgets_limit this = nat (sint (ucast (m_probe_size this) :: 32 word)) - 1"

text \<open>
  A command line tail in which every option is an element of its own, followed by its
  value: \<^verbatim>\<open>-c val -c' val' ...\<close>, and what such options do to the variables of the
  meter branch.
\<close>

definition opt_args :: "(char \<times> string) list \<Rightarrow> string list" where
  "opt_args ps = concat (map (\<lambda>(c, val). [[CHR ''-'', c], val]) ps)"

fun set_opt :: "meter_vars \<Rightarrow> char \<times> string \<Rightarrow> meter_vars" where
  "set_opt v (c, val) =
     (if c = CHR ''h'' then v\<lparr>h_flag := True, host_name := val\<rparr>
      else if c = CHR ''p'' then v\<lparr>p_flag := True, port := ucast (atoi val)\<rparr>
      else if c = CHR ''s'' then v\<lparr>s_flag := True, probe_size := scast (atoi val)\<rparr>
      else if c = CHR ''t'' then v\<lparr>t_flag := True, measurment_time := atof val\<rparr>
      else v)"

definition meter_options :: "char set" where
  "meter_options = {CHR ''h'', CHR ''p'', CHR ''s'', CHR ''t''}"

text \<open>The parser gave no configuration: it returned \<^verbatim>\<open>nullptr\<close> or called \<^verbatim>\<open>exit\<close>.\<close>

definition parse_failed :: "string list \<times> MTripConfiguration option result \<Rightarrow> bool" where
  "parse_failed r =
     (case snd r of Return (Some mtrip) \<Rightarrow> False | Return None \<Rightarrow> True | Exit n \<Rightarrow> True)"


subsection \<open>Concrete runs\<close>

definition ansi :: platform where
  "ansi = \<lparr>CL_GREEN = CHR 0x1B # ''[32m'', RESET = CHR 0x1B # ''[0m'', permute = True\<rparr>"

definition meter_argv :: "string list" where
  "meter_argv =
     [''ipk-mtrip'', ''meter'', ''-h'', ''localhost'', ''-p'', ''9000'', ''-s'', ''8'', ''-t'', ''1'']"

definition reflect_argv :: "string list" where
  "reflect_argv = [''ipk-mtrip'', ''reflect'', ''-p'', ''9000'']"

text \<open>
  A process whose stack has a kilobyte left, whose fresh buffers hold the letter x,
  and with two bytes and then a NUL behind the meter's buffer.
\<close>

definition typing :: "string \<Rightarrow> event list \<Rightarrow> world" where
  "typing inp es =
     \<lparr>stdin = inp, events = es, stack = (\<lambda>i. CHR ''x''), stack_limit = 1024,
      beyond = [CHR 0x7F, CHR 0x01, NUL]\<rparr>"

definition long_datagram :: string where
  "long_datagram = replicate 600 (CHR ''a'')"

definition full_datagram :: string where
  "full_datagram = replicate 512 (CHR ''a'')"

section \<open>Auxiliary facts\<close>

lemma sent_before [simp]: "sent (before xs ys oc) = ys @ sent oc"
  by (simp add: before_def)

lemma out_before [simp]: "out (before xs ys oc) = xs @ out oc"
  by (simp add: before_def)

lemma status_before [simp]: "status (before xs ys oc) = status oc"
  by (simp add: before_def)

lemma err_before [simp]: "err (before xs ys oc) = err oc"
  by (simp add: before_def)

lemma sint_le_uint: "sint (x :: 'a::len word) \<le> uint x"
proof (cases "0 \<le> sint x")
  case True
  have "sint x < 2 ^ (LENGTH('a) - 1)" by (rule sint_lt)
  also have "\<dots> \<le> (2::int) ^ LENGTH('a)" by (rule power_increasing) simp_all
  finally have "take_bit LENGTH('a) (sint x) = sint x"
    using True by (simp add: take_bit_int_eq_self)
  then show ?thesis by (simp add: uint_sint)
next
  case False
  then have "sint x < 0" by simp
  moreover have "0 \<le> uint x" by simp
  ultimately show ?thesis by linarith
qed

lemma fgets_n_le: "nat (sint (ucast (w :: 64 word) :: 32 word)) \<le> unat w"
proof -
  have "uint (ucast w :: 32 word) \<le> uint w"
    by (simp add: unsigned_ucast_eq take_bit_int_less_eq_self_iff)
  then have "sint (ucast w :: 32 word) \<le> uint w"
    using sint_le_uint [of "ucast w :: 32 word"] by linarith
  then show ?thesis unfolding unat_eq_nat_uint by (rule nat_mono)
qed

lemma length_fgets_chars: "length (fgets_chars k inp) \<le> k"
  by (induction k inp rule: fgets_chars.induct) simp_all

lemma fgets_zeroed:
  assumes "nat n \<le> m"
  shows "fgets (replicate m NUL) n inp =
     (zero_filled m (fgets_chars (nat n - 1) inp), drop (length (fgets_chars (nat n - 1) inp)) inp)"
proof (cases "n \<le> 0")
  case True
  then show ?thesis by (simp add: fgets_def zero_filled_def)
next
  case False
  define got where "got = fgets_chars (nat n - 1) inp"
  have "length got \<le> nat n - 1" unfolding got_def by (rule length_fgets_chars)
  with False assms have lt: "length got < m" by linarith
  have unfolded: "fgets (replicate m NUL) n inp =
      (if got = [] \<and> 1 < n then (replicate m NUL, inp)
       else (got @ [NUL] @ drop (Suc (length got)) (replicate m NUL), drop (length got) inp))"
    using False unfolding fgets_def got_def Let_def by simp
  have filled: "got @ [NUL] @ drop (Suc (length got)) (replicate m NUL) = zero_filled m got"
    using lt by (simp add: zero_filled_def Suc_diff_Suc replicate_app_Cons_same
        flip: replicate_Suc)
  have "fgets (replicate m NUL) n inp = (zero_filled m got, drop (length got) inp)"
  proof (cases "got = [] \<and> 1 < n")
    case True
    then show ?thesis unfolding unfolded by (simp add: zero_filled_def)
  next
    case False
    then show ?thesis unfolding unfolded filled by auto
  qed
  then show ?thesis unfolding got_def .
qed

lemma Meter_send_eq:
  assumes "length buffer = unat (m_probe_size this)"
  shows "Meter_send this buffer inp =
     (zero_filled (unat (m_probe_size this)) (fgets_chars (fgets_limit this) inp),
      drop (length (fgets_chars (fgets_limit this) inp)) inp)"
proof -
  have z: "bzero buffer (unat (m_probe_size this)) = replicate (unat (m_probe_size this)) NUL"
    using assms by (simp add: bzero_def)
  have len: "length (fgets_chars (fgets_limit this) inp) \<le> unat (m_probe_size this)"
    using length_fgets_chars [of "fgets_limit this" inp] fgets_n_le [of "m_probe_size this"]
    by (simp add: fgets_limit_def)
  show ?thesis
    unfolding Meter_send_def z Let_def fgets_zeroed [OF fgets_n_le]
    using len by (simp add: send_message_def zero_filled_def fgets_limit_def)
qed

lemma length_recv_message:
  "len \<le> length buffer \<Longrightarrow> length (recv_message buffer len d) = length buffer"
  by (simp add: recv_message_def)

lemma take_recv_message:
  "take (min len (length d)) (recv_message buffer len d) = take len d"
  by (cases "len \<le> length d") (simp_all add: recv_message_def min_def)

lemma length_bzero: "length (bzero buffer n) = length buffer"
  by (simp add: bzero_def)

lemma Reflector_loop_running:
  "Interrupt \<notin> set es \<Longrightarrow> status (Reflector_loop buffer es) = Running"
proof (induction es arbitrary: buffer)
  case Nil
  then show ?case by simp
next
  case (Cons e es)
  then show ?case by (cases e) (simp_all add: Let_def)
qed

lemma Reflector_loop_interrupted:
  "Interrupt \<in> set es \<Longrightarrow> status (Reflector_loop buffer es) = Exited EXIT_SUCCESS"
proof (induction es arbitrary: buffer)
  case Nil
  then show ?case by simp
next
  case (Cons e es)
  then show ?case by (cases e) (simp_all add: Let_def interrupt_handler_def)
qed



lemma getopt_end:
  "length argv \<le> optind st \<Longrightarrow> getopt perm os argv st = (None, st)"
  by (simp add: getopt_def)


lemma getopt_pair:
  assumes "optind st = length pre" and "nextchar st = 0"
    and "opt_lookup os c = Some True" and "c \<noteq> CHR ''-''"
  shows "getopt perm os (pre @ [CHR ''-'', c] # val # rest) st =
     (Some c, st\<lparr>optind := length pre + 2, nextchar := 0, optarg := val\<rparr>)"
proof -
  let ?argv = "pre @ [CHR ''-'', c] # val # rest"
  have a: "?argv ! length pre = [CHR ''-'', c]" by simp
  have b: "?argv ! Suc (length pre) = val" by (simp add: nth_append)
  have opt: "is_option [CHR ''-'', c]" by (simp add: is_option_def)
  have tw: "takeWhile (\<lambda>a. \<not> is_option a) (drop (length pre) ?argv) = []"
    using opt by simp
  have ne: "[CHR ''-'', c] \<noteq> ''--''" using assms(4) by simp
  have st1: "st\<lparr>optind := length pre, nextchar := 0\<rparr> = st"
    using assms(1,2) by simp
  have g: "getopt perm os ?argv st = getopt_char os ?argv st [CHR ''-'', c] 1"
    unfolding getopt_def Let_def assms(1) assms(2) tw a
    using ne opt st1 by simp
  show ?thesis
    unfolding g getopt_char_def Let_def using assms(1,3) b by simp
qed



lemma opt_lookup_meter:
  "c \<in> meter_options \<Longrightarrow> opt_lookup ''h:p:s:t:'' c = Some True \<and> c \<noteq> CHR ''-'' \<and> c \<noteq> CHR ''?''"
  by (auto simp: meter_options_def)

lemma meter_getopt_loop_step:
  assumes "c \<in> meter_options" and "getopt perm ''h:p:s:t:'' argv st = (Some c, st')"
  shows "meter_getopt_loop perm argv v st =
     meter_getopt_loop perm argv (set_opt v (c, optarg st')) st'"
  using assms by (subst meter_getopt_loop.simps) (auto simp: meter_options_def)

lemma opt_args_Cons: "opt_args ((c, val) # ps) = [CHR ''-'', c] # val # opt_args ps"
  by (simp add: opt_args_def)

lemma length_opt_args: "length (opt_args ps) = 2 * length ps"
  by (induction ps) (auto simp: opt_args_def)

lemma meter_getopt_loop_pairs:
  assumes "fst ` set ps \<subseteq> meter_options" and "optind st = length pre" and "nextchar st = 0"
  shows "\<exists>st'. optind st' = length pre + length (opt_args ps) \<and> nextchar st' = 0 \<and>
     meter_getopt_loop perm (pre @ opt_args ps @ rest) v st =
     meter_getopt_loop perm (pre @ opt_args ps @ rest) (foldl set_opt v ps) st'"
  using assms
proof (induction ps arbitrary: pre v st)
  case Nil
  then show ?case by (auto simp: opt_args_def)
next
  case (Cons a ps)
  obtain c val where a: "a = (c, val)" by (cases a)
  let ?argv = "pre @ opt_args (a # ps) @ rest"
  let ?st1 = "st\<lparr>optind := length pre + 2, nextchar := 0, optarg := val\<rparr>"
  have c: "c \<in> meter_options" using Cons.prems(1) a by simp
  have argv: "?argv = pre @ [CHR ''-'', c] # val # (opt_args ps @ rest)"
    by (simp add: a opt_args_Cons)
  have step: "getopt perm ''h:p:s:t:'' ?argv st = (Some c, ?st1)"
    unfolding argv using Cons.prems(2,3) opt_lookup_meter [OF c] by (intro getopt_pair) simp_all
  have one: "meter_getopt_loop perm ?argv v st =
      meter_getopt_loop perm ?argv (set_opt v (c, val)) ?st1"
    using meter_getopt_loop_step [OF c step, of v] by simp
  have argv': "?argv = (pre @ [[CHR ''-'', c], val]) @ opt_args ps @ rest"
    by (simp add: a opt_args_Cons)
  have "\<exists>st'. optind st' = length (pre @ [[CHR ''-'', c], val]) + length (opt_args ps) \<and>
      nextchar st' = 0 \<and>
      meter_getopt_loop perm ((pre @ [[CHR ''-'', c], val]) @ opt_args ps @ rest)
        (set_opt v (c, val)) ?st1 =
      meter_getopt_loop perm ((pre @ [[CHR ''-'', c], val]) @ opt_args ps @ rest)
        (foldl set_opt (set_opt v (c, val)) ps) st'"
    using Cons.prems(1) by (intro Cons.IH) simp_all
  then obtain st' where
    "optind st' = length (pre @ [[CHR ''-'', c], val]) + length (opt_args ps)"
    "nextchar st' = 0"
    "meter_getopt_loop perm ?argv (set_opt v (c, val)) ?st1 =
     meter_getopt_loop perm ?argv (foldl set_opt (set_opt v (c, val)) ps) st'"
    unfolding argv' [symmetric] by blast
  then show ?case
    unfolding one by (intro exI [of _ st']) (simp add: a opt_args_Cons)
qed

lemma meter_getopt_loop_done:
  assumes "fst ` set ps \<subseteq> meter_options" and "optind st = length pre" and "nextchar st = 0"
  shows "meter_getopt_loop perm (pre @ opt_args ps) v st = ([], Return (foldl set_opt v ps))"
proof -
  obtain st' where st': "optind st' = length pre + length (opt_args ps)"
    and eq: "meter_getopt_loop perm (pre @ opt_args ps @ []) v st =
       meter_getopt_loop perm (pre @ opt_args ps @ []) (foldl set_opt v ps) st'"
    using meter_getopt_loop_pairs [OF assms, of perm "[]" v] by blast
  have "getopt perm ''h:p:s:t:'' (pre @ opt_args ps) st' = (None, st')"
    using st' by (intro getopt_end) simp
  then have "meter_getopt_loop perm (pre @ opt_args ps) (foldl set_opt v ps) st' =
      ([], Return (foldl set_opt v ps))"
    by (subst meter_getopt_loop.simps) simp
  with eq show ?thesis by simp
qed



lemma meter_getopt_loop_exit:
  "meter_getopt_loop perm argv v st = (e, Exit n) \<Longrightarrow> n = 1"
proof (induction perm argv v st rule: meter_getopt_loop.induct)
  case (1 perm argv v st)
  obtain r st' where g: "getopt perm ''h:p:s:t:'' argv st = (r, st')"
    by (cases "getopt perm ''h:p:s:t:'' argv st")
  note unfolded = meter_getopt_loop.simps [of perm argv v st]
  show ?case
  proof (cases r)
    case None
    with "1.prems" g show ?thesis by (simp add: unfolded)
  next
    case (Some c)
    consider (h) "c = CHR ''h''"
      | (p) "c \<noteq> CHR ''h''" "c = CHR ''p''"
      | (s) "c \<noteq> CHR ''h''" "c \<noteq> CHR ''p''" "c = CHR ''s''"
      | (t) "c \<noteq> CHR ''h''" "c \<noteq> CHR ''p''" "c \<noteq> CHR ''s''" "c = CHR ''t''"
      | (other) "c \<noteq> CHR ''h''" "c \<noteq> CHR ''p''" "c \<noteq> CHR ''s''" "c \<noteq> CHR ''t''"
      by blast
    then show ?thesis
    proof cases
      case h
      with "1.prems" g Some have "meter_getopt_loop perm argv
          (v\<lparr>h_flag := True, host_name := optarg st'\<rparr>) st' = (e, Exit n)"
        by (simp add: unfolded)
      with "1.IH"(1) [OF g [symmetric] Some h] show ?thesis .
    next
      case p
      with "1.prems" g Some have "meter_getopt_loop perm argv
          (v\<lparr>p_flag := True, port := ucast (atoi (optarg st'))\<rparr>) st' = (e, Exit n)"
        by (simp add: unfolded)
      with "1.IH"(2) [OF g [symmetric] Some p] show ?thesis .
    next
      case s
      with "1.prems" g Some have "meter_getopt_loop perm argv
          (v\<lparr>s_flag := True, probe_size := scast (atoi (optarg st'))\<rparr>) st' = (e, Exit n)"
        by (simp add: unfolded)
      with "1.IH"(3) [OF g [symmetric] Some s] show ?thesis .
    next
      case t
      with "1.prems" g Some have "meter_getopt_loop perm argv
          (v\<lparr>t_flag := True, measurment_time := atof (optarg st')\<rparr>) st' = (e, Exit n)"
        by (simp add: unfolded)
      with "1.IH"(4) [OF g [symmetric] Some t] show ?thesis .
    next
      case other
      with "1.prems" g Some show ?thesis by (simp add: unfolded split: if_splits)
    qed
  qed
qed

lemma reflect_getopt_loop_exit:
  "reflect_getopt_loop perm argv v st = (e, Exit n) \<Longrightarrow> n = 1"
proof (induction perm argv v st rule: reflect_getopt_loop.induct)
  case (1 perm argv v st)
  note unfolded = reflect_getopt_loop.simps [of perm argv v st]
  note ih = "1.IH" [OF sym refl refl]
  from "1.prems" [unfolded unfolded] ih show ?case
    by (auto split: prod.splits option.splits if_splits)
qed

lemma argument_parser_exit:
  "argument_parser perm argv = (e, Exit n) \<Longrightarrow> n = 1"
  by (auto simp: argument_parser_def split: if_splits prod.splits result.splits
      dest: meter_getopt_loop_exit reflect_getopt_loop_exit)

lemma Reflector_loop_sent:
  "length buffer = 512 \<Longrightarrow>
   list_all2 (\<lambda>d x. length x = 512 \<and> take (min 512 (length d)) x = take 512 d)
     (datagrams es) (sent (Reflector_loop buffer es))"
proof (induction es arbitrary: buffer)
  case Nil
  then show ?case by simp
next
  case (Cons e es)
  show ?case
  proof (cases e)
    case (Datagram d)
    have len: "length (recv_message buffer 512 d) = 512"
      using Cons.prems by (simp add: length_recv_message)
    from Cons.IH [OF len] len show ?thesis
      using Datagram by (simp add: Let_def send_message_def take_recv_message)
  next
    case Interrupt
    then show ?thesis by (simp add: interrupt_handler_def)
  qed
qed

lemma Reflector_init_sent:
  "list_all2 (\<lambda>d x. length x = 512 \<and> take (min 512 (length d)) x = take 512 d)
     (datagrams (events w)) (sent (Reflector_init pf w))"
proof -
  have "length (map (stack w) [0..<512]) = 512" by simp
  from Reflector_loop_sent [OF this] show ?thesis by (simp add: Reflector_init_def)
qed

lemma stdin_reads_length:
  "t \<in> set (stdin_reads k inp r) \<Longrightarrow> length t \<le> k"
  by (induction r arbitrary: inp) (auto simp: length_fgets_chars)

lemma fgets_limit_le: "fgets_limit this \<le> unat (m_probe_size this)"
  using fgets_n_le [of "m_probe_size this"] by (simp add: fgets_limit_def)

lemma length_zero_filled: "length t \<le> n \<Longrightarrow> length (zero_filled n t) = n"
  by (simp add: zero_filled_def)


lemma argument_parser_meter:
  assumes "ps \<noteq> []" and "fst ` set ps \<subseteq> meter_options"
  shows "argument_parser perm (prog # ''meter'' # opt_args ps) =
     (let v = foldl set_opt meter_vars0 ps
      in if h_flag v \<and> p_flag v \<and> s_flag v \<and> t_flag v
         then ([], Return (Some (Meter (host_name v) (port v) (probe_size v) (measurment_time v))))
         else ([''Not all argument options passed in.'' @ endl], Return None))"
proof -
  have len: "\<not> length (prog # ''meter'' # opt_args ps) < 4"
    using assms(1) by (cases ps) (simp_all add: length_opt_args)
  have loop: "meter_getopt_loop perm ([prog, ''meter''] @ opt_args ps) meter_vars0
      (getopt_state0\<lparr>optind := Suc (optind getopt_state0)\<rparr>) =
      ([], Return (foldl set_opt meter_vars0 ps))"
    using assms(2) by (intro meter_getopt_loop_done) (simp_all add: getopt_state0_def)
  show ?thesis
    using len loop unfolding argument_parser_def
    by (simp add: getopt_state0_def Let_def)
qed





text \<open>The usual command lines of the two modes, with any texts as values.\<close>

lemma argument_parser_usage:
  "argument_parser perm [prog, ''meter'', ''-h'', H, ''-p'', P, ''-s'', S, ''-t'', T] =
     ([], Return (Some (Meter H (ucast (atoi P)) (scast (atoi S)) (atof T))))"
  "argument_parser perm [prog, ''reflect'', ''-p'', P] =
     ([], Return (Some (Reflector (atoi P))))"
proof -
  let ?ps = "[(CHR ''h'', H), (CHR ''p'', P), (CHR ''s'', S), (CHR ''t'', T)]"
  have "argument_parser perm (prog # ''meter'' # opt_args ?ps) =
      ([], Return (Some (Meter H (ucast (atoi P)) (scast (atoi S)) (atof T))))"
    by (subst argument_parser_meter) (simp_all add: meter_options_def meter_vars0_def)
  then show "argument_parser perm [prog, ''meter'', ''-h'', H, ''-p'', P, ''-s'', S, ''-t'', T] =
      ([], Return (Some (Meter H (ucast (atoi P)) (scast (atoi S)) (atof T))))"
    by (simp add: opt_args_def)
next
  let ?argv = "[prog, ''reflect'', ''-p'', P]"
  let ?st = "getopt_state0\<lparr>optind := Suc (optind getopt_state0)\<rparr>"
  let ?st' = "?st\<lparr>optind := length [prog, ''reflect''] + 2, nextchar := 0, optarg := P\<rparr>"
  have one: "getopt perm ''p:'' ([prog, ''reflect''] @ [CHR ''-'', CHR ''p''] # P # []) ?st =
      (Some CHR ''p'', ?st')"
    by (intro getopt_pair) (simp_all add: getopt_state0_def)
  have two: "getopt perm ''p:'' ?argv ?st' = (None, ?st')"
    by (intro getopt_end) simp
  have "reflect_getopt_loop perm ?argv (True, atoi P) ?st' = ([], Return (True, atoi P))"
    using two by (subst reflect_getopt_loop.simps) simp
  then have "reflect_getopt_loop perm ?argv (False, 0) ?st = ([], Return (True, atoi P))"
    using one by (subst reflect_getopt_loop.simps) simp
  then show "argument_parser perm ?argv = ([], Return (Some (Reflector (atoi P))))"
    unfolding argument_parser_def by (simp add: getopt_state0_def)
qed

lemma status_killed [simp]: "status (killed n) = Killed n"
  and sent_killed [simp]: "sent (killed n) = []"
  and out_killed [simp]: "out (killed n) = []"
  and err_killed [simp]: "err (killed n) = []"
  by (simp_all add: killed_def)

lemma length_received: "length (received n d) = n"
  by (simp add: received_def)

lemma recv_zeroed:
  "length buffer = n \<Longrightarrow> recv_message (bzero buffer n) n d = received n d"
  by (simp add: recv_message_def bzero_def received_def min_def)

lemma c_str_received:
  "c_str (received n d) behind =
     (if print_ends n behind d
      then Some (takeWhile (\<lambda>c. c \<noteq> NUL) (received n d @ behind)) else None)"
  by (simp add: c_str_def print_ends_def)

text \<open>One round of the meter's loop on an answer, with the buffer at its size.\<close>

lemma Meter_loop_Datagram:
  assumes "length buffer = unat (m_probe_size this)"
  shows "Meter_loop this behind buffer inp (Datagram d # es) =
     before [''Please enter msg: '']
       [zero_filled (unat (m_probe_size this)) (fgets_chars (fgets_limit this) inp)]
       (if print_ends (unat (m_probe_size this)) behind d
        then before [feedback_line (unat (m_probe_size this)) behind d] []
               (Meter_loop this behind (received (unat (m_probe_size this)) d)
                  (drop (length (fgets_chars (fgets_limit this) inp)) inp) es)
        else killed SIGSEGV)"
  by (simp add: Meter_send_eq [OF assms] recv_zeroed [OF assms] c_str_received
      feedback_line_def Let_def)


declare Meter_loop.simps(3) [simp del]

lemma Meter_loop_sent:
  "length buffer = unat (m_probe_size this) \<Longrightarrow>
   sent (Meter_loop this behind buffer inp es) =
     map (zero_filled (unat (m_probe_size this)))
       (stdin_reads (fgets_limit this) inp
          (Suc (length (answered (unat (m_probe_size this)) behind es))))"
proof (induction es arbitrary: buffer inp)
  case Nil
  then show ?case by (simp add: Meter_send_eq)
next
  case (Cons e es)
  show ?case
  proof (cases e)
    case (Datagram d)
    show ?thesis
      unfolding Datagram Meter_loop_Datagram [OF Cons.prems]
      using Cons.IH [OF length_received] by simp
  next
    case Interrupt
    then show ?thesis using Cons.prems by (simp add: Meter_send_eq interrupt_handler_def)
  qed
qed



text \<open>An interrupt that arrives while the loop is waiting ends the process with status 0.\<close>

lemma Meter_loop_interrupt:
  "length buffer = unat (m_probe_size this) \<Longrightarrow> Interrupt \<in> set es \<Longrightarrow>
   status (Meter_loop this behind buffer inp (takeWhile (\<lambda>e. e \<noteq> Interrupt) es)) = Running \<Longrightarrow>
   status (Meter_loop this behind buffer inp es) = Exited EXIT_SUCCESS"
proof (induction es arbitrary: buffer inp)
  case Nil
  then show ?case by simp
next
  case (Cons e es)
  show ?case
  proof (cases e)
    case (Datagram d)
    show ?thesis
      using Cons.IH [OF length_received] Cons.prems(2,3)
      unfolding Datagram by (simp add: Meter_loop_Datagram [OF Cons.prems(1)] split: if_splits)
  next
    case Interrupt
    then show ?thesis by (simp add: interrupt_handler_def)
  qed
qed

lemma Meter_loop_exited:
  "length buffer = unat (m_probe_size this) \<Longrightarrow>
   status (Meter_loop this behind buffer inp es) = Exited k \<Longrightarrow>
   k = 0 \<and> Interrupt \<in> set es"
proof (induction es arbitrary: buffer inp)
  case Nil
  then show ?case by simp
next
  case (Cons e es)
  show ?case
  proof (cases e)
    case (Datagram d)
    show ?thesis
      using Cons.IH [OF length_received] Cons.prems(2)
      unfolding Datagram by (simp add: Meter_loop_Datagram [OF Cons.prems(1)] split: if_splits)
  next
    case Interrupt
    then show ?thesis using Cons.prems(2)
      by (simp add: interrupt_handler_def EXIT_SUCCESS_def)
  qed
qed

lemma Reflector_loop_exited:
  "status (Reflector_loop buffer es) = Exited k \<Longrightarrow> k = 0 \<and> Interrupt \<in> set es"
  using Reflector_loop_running [of es buffer] Reflector_loop_interrupted [of es buffer]
  by (cases "Interrupt \<in> set es") (simp_all add: EXIT_SUCCESS_def)



lemma Meter_init_sent:
  "sent (Meter_init pf this w) =
     map (zero_filled (unat (m_probe_size this)))
       (stdin_reads (fgets_limit this) (stdin w) (rounds this w))"
proof (cases "stack_limit w < unat (m_probe_size this)")
  case True
  then show ?thesis by (simp add: Meter_init_def rounds_def)
next
  case False
  have "length (map (stack w) [0..<unat (m_probe_size this)]) = unat (m_probe_size this)"
    by simp
  from Meter_loop_sent [OF this] False show ?thesis
    by (simp add: Meter_init_def rounds_def)
qed

lemma Meter_loop_err:
  "length buffer = unat (m_probe_size this) \<Longrightarrow> err (Meter_loop this behind buffer inp es) = []"
proof (induction es arbitrary: buffer inp)
  case Nil
  then show ?case by simp
next
  case (Cons e es)
  show ?case
  proof (cases e)
    case (Datagram d)
    show ?thesis
      unfolding Datagram Meter_loop_Datagram [OF Cons.prems]
      using Cons.IH [OF length_received] by simp
  next
    case Interrupt
    then show ?thesis by (simp add: interrupt_handler_def)
  qed
qed

lemma Meter_loop_not_Returned:
  "length buffer = unat (m_probe_size this) \<Longrightarrow>
   status (Meter_loop this behind buffer inp es) \<noteq> Returned"
proof (induction es arbitrary: buffer inp)
  case Nil
  then show ?case by simp
next
  case (Cons e es)
  show ?case
  proof (cases e)
    case (Datagram d)
    show ?thesis
      unfolding Datagram Meter_loop_Datagram [OF Cons.prems]
      using Cons.IH [OF length_received] by simp
  next
    case Interrupt
    then show ?thesis by (simp add: interrupt_handler_def)
  qed
qed

lemma Reflector_loop_not_Returned: "status (Reflector_loop buffer es) \<noteq> Returned"
  using Reflector_loop_running [of es buffer] Reflector_loop_interrupted [of es buffer]
  by (cases "Interrupt \<in> set es") simp_all

lemma Reflector_loop_err: "err (Reflector_loop buffer es) = []"
proof (induction es arbitrary: buffer)
  case Nil
  then show ?case by simp
next
  case (Cons e es)
  then show ?case by (cases e) (simp_all add: Let_def interrupt_handler_def)
qed

lemma length_fresh: "length (map (stack (w :: world)) [0..<n]) = n"
  by simp

lemma Meter_init_not_Returned: "status (Meter_init pf this w) \<noteq> Returned"
  using Meter_loop_not_Returned [OF length_fresh]
  by (simp add: Meter_init_def)

lemma Meter_init_exited:
  "status (Meter_init pf this w) = Exited k \<Longrightarrow> k = 0 \<and> Interrupt \<in> set (events w)"
  using Meter_loop_exited [OF length_fresh]
  by (simp add: Meter_init_def split: if_splits)

lemma Meter_init_err: "err (Meter_init pf this w) = []"
  using Meter_loop_err [OF length_fresh]
  by (simp add: Meter_init_def)

lemma Meter_init_interrupt:
  assumes "Interrupt \<in> set (events w)"
    and "status (Meter_init pf this (w\<lparr>events := takeWhile (\<lambda>e. e \<noteq> Interrupt) (events w)\<rparr>)) = Running"
  shows "status (Meter_init pf this w) = Exited EXIT_SUCCESS"
proof (cases "stack_limit w < unat (m_probe_size this)")
  case True
  with assms(2) show ?thesis by (simp add: Meter_init_def)
next
  case False
  with assms(2) have "status (Meter_loop this (beyond w)
      (map (stack w) [0..<unat (m_probe_size this)]) (stdin w)
      (takeWhile (\<lambda>e. e \<noteq> Interrupt) (events w))) = Running"
    by (simp add: Meter_init_def)
  from Meter_loop_interrupt [OF length_fresh assms(1) this] False
  show ?thesis by (simp add: Meter_init_def)
qed

lemma init_interrupt:
  assumes "Interrupt \<in> set (events w)"
    and "status (init pf mtrip (w\<lparr>events := takeWhile (\<lambda>e. e \<noteq> Interrupt) (events w)\<rparr>)) = Running"
  shows "status (init pf mtrip w) = Exited EXIT_SUCCESS"
proof (cases mtrip)
  case (Meter h p s t)
  with assms show ?thesis by (simp add: init_def Meter_init_interrupt)
next
  case (Reflector p)
  with assms(1) show ?thesis
    by (simp add: init_def Reflector_init_def Reflector_loop_interrupted)
qed

lemma init_exited:
  "status (init pf mtrip w) = Exited k \<Longrightarrow> k = 0 \<and> Interrupt \<in> set (events w)"
  by (cases mtrip)
    (auto simp: init_def Reflector_init_def dest: Meter_init_exited Reflector_loop_exited)

lemma init_not_Returned: "status (init pf mtrip w) \<noteq> Returned"
  by (cases mtrip)
    (simp_all add: init_def Reflector_init_def Meter_init_not_Returned
      Reflector_loop_not_Returned)

lemma init_err: "err (init pf mtrip w) = []"
  by (cases mtrip)
    (simp_all add: init_def Reflector_init_def Meter_init_err Reflector_loop_err)

lemma main_parsed:
  assumes "argument_parser (permute pf) argv = (e, Return (Some mtrip))"
  shows "status (main pf argv w) = status (init pf mtrip w)"
    and "err (main pf argv w) = e"
  using assms init_not_Returned [of pf mtrip w]
  by (simp_all add: main_def Let_def init_err)



section \<open>Properties\<close>

subsection \<open>The reflector's answer\<close>

text \<open>
  C1, as the code has it. The reflector answers every datagram \<open>d\<close> it receives with a
  datagram \<open>x\<close> of exactly 512 bytes, whatever the length of \<open>d\<close>, and the first
  \<open>min 512 (length d)\<close> bytes of \<open>x\<close> are those of \<open>d\<close>. So the answer equals the
  datagram received, byte for byte and in length, exactly when that datagram has 512
  bytes.
\<close>

theorem reflector_echo:
  "list_all2 (\<lambda>d x. length x = 512 \<and> take (min 512 (length d)) x = take 512 d \<and>
       (x = d \<longleftrightarrow> length d = 512))
     (datagrams (events w)) (sent (Reflector_init pf w))"
  using Reflector_init_sent [of w pf]
  by (rule list_all2_mono) (auto simp: min_def)

text \<open>A datagram of 512 bytes comes back as it is.\<close>

theorem reflector_echo_witness:
  "length full_datagram = 512 \<and>
   sent (Reflector_init ansi (typing [] [Datagram full_datagram])) = [full_datagram]"
proof -
  have d: "datagrams (events (typing [] [Datagram full_datagram])) = [full_datagram]"
    by (simp add: typing_def)
  have l: "length full_datagram = 512" by (simp add: full_datagram_def)
  from reflector_echo [of "typing [] [Datagram full_datagram]" ansi] l
  show ?thesis unfolding d by (auto simp: list_all2_Cons1)
qed

text \<open>
  A datagram of three bytes does not: the reflector started as \<^verbatim>\<open>reflect -p 9000\<close> answers
  \<^verbatim>\<open>abc\<close> with 512 bytes.
\<close>

theorem reflector_echo_counterexample:
  "sent (main ansi reflect_argv (typing [] [Datagram ''abc''])) =
     [''abc'' @ replicate 509 (CHR ''x'')] \<and>
   length (''abc'' @ replicate 509 (CHR ''x'')) \<noteq> length ''abc''"
  by code_simp

subsection \<open>The meter's loop\<close>







subsection \<open>The command line\<close>

text \<open>
  C4, as the code has it. The parser checks no bound on a value. For every command
  line \<^verbatim>\<open>meter -h H -p P -s S -t T\<close>, whatever the four texts are, it constructs the
  Meter configuration whose probe size is \<^verbatim>\<open>atoi(S)\<close> converted to \<^verbatim>\<open>size_t\<close> and whose
  duration is \<^verbatim>\<open>atof(T)\<close>; for every \<^verbatim>\<open>reflect -p P\<close> it constructs the Reflector
  configuration with port \<^verbatim>\<open>atoi(P)\<close>.
\<close>

theorem parser_takes_any_value:
  "argument_parser perm [prog, ''meter'', ''-h'', H, ''-p'', P, ''-s'', S, ''-t'', T] =
     ([], Return (Some (Meter H (ucast (atoi P)) (scast (atoi S)) (atof T)))) \<and>
   argument_parser perm [prog, ''reflect'', ''-p'', P] =
     ([], Return (Some (Reflector (atoi P))))"
  by (intro conjI argument_parser_usage)

theorem parser_takes_any_value_witness:
  "argument_parser True
     [''ipk-mtrip'', ''meter'', ''-h'', ''localhost'', ''-p'', ''9000'', ''-s'', ''-5'', ''-t'', ''soon''] =
     ([], Return (Some (Meter ''localhost'' 9000 18446744073709551611 (atof ''soon'')))) \<and>
   argument_parser True [''ipk-mtrip'', ''reflect'', ''-p'', ''none''] =
     ([], Return (Some (Reflector 0)))"
proof -
  have "(ucast (atoi ''9000'') :: 16 word) = 9000"
    and "(scast (atoi ''-5'') :: 64 word) = 18446744073709551611"
    and "atoi ''none'' = 0"
    by code_simp+
  then show ?thesis
    using parser_takes_any_value [of True "''ipk-mtrip''" "''localhost''" "''9000''"
        "''-5''" "''soon''"]
      parser_takes_any_value [of True "''ipk-mtrip''" _ "''none''"]
    by simp
qed

text \<open>A probe size of 0 and a duration of 0 are accepted, and the meter runs.\<close>

theorem probe_size_positive_counterexample:
  "argument_parser True
     [''ipk-mtrip'', ''meter'', ''-h'', ''localhost'', ''-p'', ''9000'', ''-s'', ''0'', ''-t'', ''0''] =
     ([], Return (Some (Meter ''localhost'' 9000 0 (atof ''0'')))) \<and>
   \<not> 0 < unat (m_probe_size (Meter ''localhost'' 9000 0 (atof ''0''))) \<and>
   status (main ansi
     [''ipk-mtrip'', ''meter'', ''-h'', ''localhost'', ''-p'', ''9000'', ''-s'', ''0'', ''-t'', ''0'']
     (typing [] [])) = Running"
  by code_simp




subsection \<open>Exit status\<close>

text \<open>
  C6. When the parser has constructed a configuration and the operator interrupts
  the loop, of the reflector or of the meter (the process, with the events before the
  interrupt, is in its loop), the exit status is 0; when the parser has constructed
  none, the exit status is 1; and status 0 is reached by the interrupt only.
\<close>

theorem exit_status:
  "(snd (argument_parser (permute pf) argv) = Return (Some mtrip) \<and>
    Interrupt \<in> set (events w) \<and>
    status (main pf argv (w\<lparr>events := takeWhile (\<lambda>e. e \<noteq> Interrupt) (events w)\<rparr>)) = Running
      \<longrightarrow> status (main pf argv w) = Exited 0) \<and>
   (parse_failed (argument_parser (permute pf) argv)
      \<longrightarrow> status (main pf argv w) = Exited 1) \<and>
   (status (main pf argv w) = Exited 0 \<longrightarrow> Interrupt \<in> set (events w))"
proof -
  obtain e r where r: "argument_parser (permute pf) argv = (e, r)"
    by (cases "argument_parser (permute pf) argv")
  show ?thesis
  proof (cases r)
    case (Return x)
    show ?thesis
    proof (cases x)
      case None
      then show ?thesis using r Return
        by (simp add: main_def parse_failed_def EXIT_FAILURE_def)
    next
      case (Some c)
      have p: "argument_parser (permute pf) argv = (e, Return (Some c))"
        using r Return Some by simp
      have "status (main pf argv w) = Exited 0"
        if "Interrupt \<in> set (events w)"
          and "status (main pf argv (w\<lparr>events := takeWhile (\<lambda>e. e \<noteq> Interrupt) (events w)\<rparr>))
            = Running"
        using that init_interrupt [of w pf c]
        by (simp add: main_parsed(1) [OF p] EXIT_SUCCESS_def)
      moreover have "Interrupt \<in> set (events w)" if "status (main pf argv w) = Exited 0"
        using that init_exited [of pf c w 0] by (simp add: main_parsed(1) [OF p])
      ultimately show ?thesis using p by (auto simp: parse_failed_def)
    qed
  next
    case (Exit n)
    then have "n = 1" using r argument_parser_exit by blast
    then show ?thesis using r Exit by (simp add: main_def parse_failed_def)
  qed
qed

theorem exit_status_witness:
  "status (main ansi meter_argv (typing ''hi'' [Interrupt])) = Exited 0 \<and>
   status (main ansi reflect_argv (typing [] [Datagram ''hi'', Interrupt])) = Exited 0 \<and>
   status (main ansi [''ipk-mtrip'', ''meter'', ''-h'', ''localhost''] (typing ''hi'' [Interrupt]))
     = Exited 1"
proof -
  have a: "snd (argument_parser (permute ansi) meter_argv) =
      Return (Some (Meter ''localhost'' 9000 8 (atof ''1'')))"
    by code_simp
  have a': "snd (argument_parser (permute ansi) reflect_argv) = Return (Some (Reflector 9000))"
    by code_simp
  have b: "Interrupt \<in> set (events (typing ''hi'' [Interrupt]))"
    and b': "Interrupt \<in> set (events (typing [] [Datagram ''hi'', Interrupt]))"
    by (simp_all add: typing_def)
  have w: "(typing ''hi'' [Interrupt])
      \<lparr>events := takeWhile (\<lambda>e. e \<noteq> Interrupt) (events (typing ''hi'' [Interrupt]))\<rparr> =
      typing ''hi'' []"
    and w': "(typing [] [Datagram ''hi'', Interrupt])
      \<lparr>events := takeWhile (\<lambda>e. e \<noteq> Interrupt)
         (events (typing [] [Datagram ''hi'', Interrupt]))\<rparr> = typing [] [Datagram ''hi'']"
    by (simp_all add: typing_def)
  have r: "status (main ansi meter_argv (typing ''hi'' [])) = Running"
    by code_simp
  have r': "status (main ansi reflect_argv (typing [] [Datagram ''hi''])) = Running"
    by code_simp
  have c: "parse_failed (argument_parser (permute ansi)
      [''ipk-mtrip'', ''meter'', ''-h'', ''localhost''])"
    by code_simp
  have 1: "status (main ansi meter_argv (typing ''hi'' [Interrupt])) = Exited 0"
    using exit_status [of ansi meter_argv "Meter ''localhost'' 9000 8 (atof ''1'')"
        "typing ''hi'' [Interrupt]"] a b r
    unfolding w by blast
  have 2: "status (main ansi reflect_argv (typing [] [Datagram ''hi'', Interrupt])) = Exited 0"
    using exit_status [of ansi reflect_argv "Reflector 9000"
        "typing [] [Datagram ''hi'', Interrupt]"] a' b' r'
    unfolding w' by blast
  have 3: "status (main ansi [''ipk-mtrip'', ''meter'', ''-h'', ''localhost'']
      (typing ''hi'' [Interrupt])) = Exited 1"
    using exit_status [of ansi "[''ipk-mtrip'', ''meter'', ''-h'', ''localhost'']" _
        "typing ''hi'' [Interrupt]"] c
    by blast
  from 1 2 3 show ?thesis by blast
qed

subsection \<open>The meter's probes\<close>




subsection \<open>Lengths of what is sent\<close>

text \<open>
  C8. Every datagram the reflector sends has exactly 512 bytes, however many bytes
  the datagram it answers had; a datagram of 512 bytes or more is answered with its
  first 512 bytes.
\<close>

theorem reflector_sends_512:
  "list_all2 (\<lambda>d x. length x = 512 \<and> (512 \<le> length d \<longrightarrow> x = take 512 d))
     (datagrams (events w)) (sent (Reflector_init pf w))"
  using Reflector_init_sent [of w pf]
  by (rule list_all2_mono) (auto simp: min_def)

theorem reflector_sends_512_witness:
  "512 \<le> length long_datagram \<and>
   sent (Reflector_init ansi (typing [] [Datagram long_datagram])) = [take 512 long_datagram]"
proof -
  have d: "datagrams (events (typing [] [Datagram long_datagram])) = [long_datagram]"
    by (simp add: typing_def)
  have l: "512 \<le> length long_datagram" by (simp add: long_datagram_def)
  from reflector_sends_512 [of "typing [] [Datagram long_datagram]" ansi] l
  show ?thesis unfolding d by (auto simp: list_all2_Cons1)
qed

text \<open>
  C9. Every datagram the meter sends has exactly \<open>m_probe_size\<close> bytes, whatever
  standard input holds and however much of it one round read.
\<close>

theorem meter_sends_probe_size:
  "\<forall>x \<in> set (sent (Meter_init pf this w)). length x = unat (m_probe_size this)"
proof
  fix x assume "x \<in> set (sent (Meter_init pf this w))"
  then obtain t where t: "t \<in> set (stdin_reads (fgets_limit this) (stdin w) (rounds this w))"
    and x: "x = zero_filled (unat (m_probe_size this)) t"
    unfolding Meter_init_sent by auto
  from stdin_reads_length [OF t] fgets_limit_le [of this]
  have "length t \<le> unat (m_probe_size this)" by (rule order_trans)
  then show "length x = unat (m_probe_size this)"
    unfolding x by (rule length_zero_filled)
qed

theorem meter_sends_probe_size_witness:
  "length (sent (Meter_init ansi (Meter ''localhost'' 9000 8 (atof ''1''))
      (typing (''hi'' @ endl @ ''a longer line'') [Datagram ''hi'']))) = 2 \<and>
   length (sent (Meter_init ansi (Meter ''localhost'' 9000 8 (atof ''1''))
      (typing (''hi'' @ endl @ ''a longer line'') [Datagram ''hi''])) ! 0) = 8 \<and>
   length (sent (Meter_init ansi (Meter ''localhost'' 9000 8 (atof ''1''))
      (typing (''hi'' @ endl @ ''a longer line'') [Datagram ''hi''])) ! 1) = 8"
proof -
  define xs where "xs = sent (Meter_init ansi (Meter ''localhost'' 9000 8 (atof ''1''))
      (typing (''hi'' @ endl @ ''a longer line'') [Datagram ''hi'']))"
  have two: "length xs = 2" unfolding xs_def by code_simp
  have all: "\<forall>z \<in> set xs. length z = 8"
    unfolding xs_def
    using meter_sends_probe_size [of ansi "Meter ''localhost'' 9000 8 (atof ''1'')"
        "typing (''hi'' @ endl @ ''a longer line'') [Datagram ''hi'']"]
    by simp
  have "xs ! 0 \<in> set xs" and "xs ! 1 \<in> set xs"
    using two by (simp_all only: nth_mem zero_less_numeral one_less_numeral_iff
        semiring_norm)
  with all two show ?thesis unfolding xs_def [symmetric] by blast
qed

subsection \<open>Too few arguments\<close>

text \<open>
  C10. With fewer than four elements in \<^verbatim>\<open>argv\<close>, the program name counted, the
  parser writes \<^verbatim>\<open>Wrong number of arguments.\<close> and returns no configuration, whatever
  the elements are, and the process ends with status 1 having printed and sent
  nothing else.
\<close>

theorem too_few_arguments:
  "length argv < 4 \<Longrightarrow>
   argument_parser perm argv = ([''Wrong number of arguments.'' @ endl], Return None) \<and>
   main pf argv w =
     \<lparr>out = [], err = [''Wrong number of arguments.'' @ endl], sent = [], status = Exited 1\<rparr>"
  by (simp add: argument_parser_def main_def EXIT_FAILURE_def)

theorem too_few_arguments_witness:
  "length [''ipk-mtrip'', ''reflect'', ''-p9000''] < 4 \<and>
   argument_parser True [''ipk-mtrip'', ''reflect'', ''-p9000''] =
     ([''Wrong number of arguments.'' @ endl], Return None) \<and>
   main ansi [''ipk-mtrip'', ''reflect'', ''-p9000''] (typing [] []) =
     \<lparr>out = [], err = [''Wrong number of arguments.'' @ endl], sent = [], status = Exited 1\<rparr>"
  using too_few_arguments [of "[''ipk-mtrip'', ''reflect'', ''-p9000'']" True ansi "typing [] []"]
  by simp

end
